theory Spec2Isabelle
  imports Main
begin

section \<open>Data model\<close>

text \<open>
  A JavaScript object whose values are token counts or arc weights is modelled as an
  association list from property names to integers. The list order is the enumeration order
  of \<^verbatim>\<open>for ... in\<close> and \<^verbatim>\<open>Object.keys\<close>; a real object carries every key once, which
  is the predicate \<open>plain_object\<close>. Only own properties are modelled: place names are
  assumed not to collide with properties inherited from \<^verbatim>\<open>Object.prototype\<close>, and token
  counts are integers in the range where JavaScript arithmetic is exact.
\<close>

type_synonym obj = "(string \<times> int) list"

type_synonym marking = obj

record transition =
  name :: string
  preconditions :: obj
  postconditions :: obj

record model =
  places :: "string list"
  transitions :: "transition list"
  m0 :: marking

text \<open>
  The source throws plain \<^verbatim>\<open>Error\<close> objects; the two throw sites of \<^verbatim>\<open>defaultFire\<close>
  are told apart by their messages. \<open>UnknownPlaceError\<close> is the throw of lines 27-28
  ("is precondition of ... but doesn't appear in marking"), \<open>NotFireableError\<close> the throw of
  line 34 ("is not fireable"). \<open>CustomError\<close> stands for whatever a user-supplied fire
  function throws.
\<close>

datatype error = UnknownPlaceError | NotFireableError | CustomError string

subsection \<open>Object primitives\<close>

definition keys :: "obj \<Rightarrow> string list" where
  \<comment> \<open>\<^verbatim>\<open>Object.keys(o)\<close>, also the order of \<^verbatim>\<open>for (const p in o)\<close>\<close>
  "keys ob = map fst ob"

definition hasOwnProperty :: "obj \<Rightarrow> string \<Rightarrow> bool" where
  "hasOwnProperty ob p = (map_of ob p \<noteq> None)"

definition or_zero :: "obj \<Rightarrow> string \<Rightarrow> int" where
  \<comment> \<open>\<^verbatim>\<open>(o[p] || 0)\<close>: a missing property is \<^verbatim>\<open>undefined\<close>, which is falsy\<close>
  "or_zero ob p = (case map_of ob p of None \<Rightarrow> 0 | Some v \<Rightarrow> v)"

fun set_property :: "obj \<Rightarrow> string \<Rightarrow> int \<Rightarrow> obj" where
  \<comment> \<open>\<^verbatim>\<open>o[p] = v\<close>: overwrite in place, or add the property at the end\<close>
  "set_property [] p v = [(p, v)]"
| "set_property ((q, w) # ob) p v =
     (if q = p then (p, v) # ob else (q, w) # set_property ob p v)"

definition plain_object :: "obj \<Rightarrow> bool" where
  "plain_object ob = distinct (keys ob)"

definition tokens :: "obj \<Rightarrow> int" where
  \<comment> \<open>the sum of the values of an object\<close>
  "tokens ob = sum_list (map snd ob)"

section \<open>Default semantics (petrinet.js)\<close>

text \<open>
  \<^verbatim>\<open>Object.keys(t.preconditions).every((p) => marking[p] >= t.preconditions[p])\<close>.
  When \<^verbatim>\<open>marking[p]\<close> is \<^verbatim>\<open>undefined\<close> the comparison is \<^verbatim>\<open>false\<close>.
\<close>

definition defaultIsFireable :: "transition \<Rightarrow> marking \<Rightarrow> bool" where
  "defaultIsFireable t mk =
     list_all (\<lambda>p. case map_of mk p of
                     None \<Rightarrow> False
                   | Some v \<Rightarrow> (case map_of (preconditions t) p of
                                  None \<Rightarrow> False
                                | Some w \<Rightarrow> w \<le> v))
       (keys (preconditions t))"

text \<open>
  The body of the \<^verbatim>\<open>for (const p in marking)\<close> loop of \<^verbatim>\<open>defaultFire\<close>: the places
  still to visit and the \<^verbatim>\<open>nextMarking\<close> built so far. The test
  \<^verbatim>\<open>nextMarking[p] < 0\<close> reads the value that was just stored, which is \<open>v\<close>.
\<close>

fun defaultFire_loop :: "transition \<Rightarrow> marking \<Rightarrow> string list \<Rightarrow> marking \<Rightarrow> error + marking" where
  "defaultFire_loop t mk [] nextMarking = Inr nextMarking"
| "defaultFire_loop t mk (p # ps) nextMarking =
     (if \<not> hasOwnProperty mk p then Inl UnknownPlaceError
      else
        let v = or_zero mk p - or_zero (preconditions t) p + or_zero (postconditions t) p;
            nextMarking' = set_property nextMarking p v
        in if v < 0 then Inl NotFireableError
           else defaultFire_loop t mk ps nextMarking')"

definition defaultFire :: "transition \<Rightarrow> marking \<Rightarrow> error + marking" where
  "defaultFire t mk = defaultFire_loop t mk (keys mk) []"

section \<open>Actions and reducers (actions.js, reducers.js)\<close>

text \<open>
  An action is an object with a \<^verbatim>\<open>type\<close> string and a payload. The two types of
  \<^verbatim>\<open>actionTypes\<close> and the three history commands of the undo library each get a
  constructor; \<open>OTHER\<close> is an action of any other type. The binding is opaque data of
  the semantics in use (the type variable), \<^verbatim>\<open>null\<close> being \<open>None\<close>.
\<close>

datatype 'b action =
    INIT model
  | FIRE transition "'b option" marking
  | UNDO
  | REDO
  | CLEAR_HISTORY
  | OTHER string

definition init :: "model \<Rightarrow> 'b action" where
  "init mdl = INIT mdl"

text \<open>
  \<^verbatim>\<open>fireTransition\<close> calls the fire function before it builds the action, so an
  exception of the fire function leaves no action behind.
\<close>

definition fireTransition ::
  "transition \<Rightarrow> marking \<Rightarrow> 'b option \<Rightarrow> (transition \<Rightarrow> marking \<Rightarrow> 'b option \<Rightarrow> error + marking)
     \<Rightarrow> error + 'b action" where
  "fireTransition t mk b fireFunction =
     (case fireFunction t mk b of
        Inl e \<Rightarrow> Inl e
      | Inr nextMarking \<Rightarrow> Inr (FIRE t b nextMarking))"

definition initialModel :: model where
  "initialModel = \<lparr>places = [], transitions = [], m0 = []\<rparr>"

fun model_reducer :: "model \<Rightarrow> 'b action \<Rightarrow> model" where
  "model_reducer st (INIT mdl) = mdl"
| "model_reducer st _ = st"

fun marking_reducer :: "marking \<Rightarrow> 'b action \<Rightarrow> marking" where
  "marking_reducer st (INIT mdl) = m0 mdl"
| "marking_reducer st (FIRE t b nextMarking) = nextMarking"
| "marking_reducer st _ = st"

record 'b entry =
  transition :: string
  binding :: "'b option"

fun sequence_reducer :: "'b entry list \<Rightarrow> 'b action \<Rightarrow> 'b entry list" where
  "sequence_reducer st (INIT mdl) = []"
| "sequence_reducer st (FIRE t b nextMarking) = st @ [\<lparr>transition = name t, binding = b\<rparr>]"
| "sequence_reducer st _ = st"

section \<open>History wrapper and store\<close>

record 'a history =
  past :: "'a list"
  present :: 'a
  future :: "'a list"

text \<open>
  Modelled from the spec: \<^verbatim>\<open>undoable\<close> is imported from the package
  \<^verbatim>\<open>redux-undo\<close>, whose code is not part of the sources. The definition follows
  section 4.4 of the specification: any action other than the three history commands runs
  the wrapped reducer and, if the new present differs from the old one, pushes the old
  present onto the past and clears the future; Undo moves the last past entry into the
  present and the old present to the front of the future; Redo is symmetric; ClearHistory
  empties past and future. "Differs" is inequality of values.
\<close>

fun undoable :: "('a \<Rightarrow> 'b action \<Rightarrow> 'a) \<Rightarrow> 'a history \<Rightarrow> 'b action \<Rightarrow> 'a history" where
  "undoable R h UNDO =
     (if past h = [] then h
      else \<lparr>past = butlast (past h), present = last (past h), future = present h # future h\<rparr>)"
| "undoable R h REDO =
     (case future h of
        [] \<Rightarrow> h
      | x # rest \<Rightarrow> \<lparr>past = past h @ [present h], present = x, future = rest\<rparr>)"
| "undoable R h CLEAR_HISTORY = \<lparr>past = [], present = present h, future = []\<rparr>"
| "undoable R h a =
     (let newPresent = R (present h) a
      in if newPresent \<noteq> present h
         then \<lparr>past = past h @ [present h], present = newPresent, future = []\<rparr>
         else h)"

record 'b app_state =
  model :: model
  marking :: "marking history"
  sequence :: "'b entry list history"

text \<open>
  Modelled from the spec: \<^verbatim>\<open>combineReducers\<close> and \<^verbatim>\<open>createStore\<close> come from the
  package \<^verbatim>\<open>redux\<close>, whose code is not part of the sources. By section 4.5 the store
  holds the three slices, \<^verbatim>\<open>dispatch\<close> runs all reducers on the action, and a new store
  starts from the reducers' default states. The field \<open>dispatched\<close> is the log of the
  actions the store has received, oldest first.
\<close>

definition reducers :: "'b app_state \<Rightarrow> 'b action \<Rightarrow> 'b app_state" where
  "reducers st a =
     \<lparr>model = model_reducer (model st) a,
      marking = undoable marking_reducer (marking st) a,
      sequence = undoable sequence_reducer (sequence st) a\<rparr>"

record 'b store =
  state :: "'b app_state"
  dispatched :: "'b action list"

definition createStore :: "'b store" where
  "createStore =
     \<lparr>state = \<lparr>model = initialModel,
               marking = \<lparr>past = [], present = [], future = []\<rparr>,
               sequence = \<lparr>past = [], present = [], future = []\<rparr>\<rparr>,
      dispatched = []\<rparr>"

definition dispatch :: "'b action \<Rightarrow> 'b store \<Rightarrow> 'b store" where
  "dispatch a st = \<lparr>state = reducers (state st) a, dispatched = dispatched st @ [a]\<rparr>"

section \<open>The simulator object (class PetriNet)\<close>

record 'b fire_semantics =
  isFireable :: "transition \<Rightarrow> marking \<Rightarrow> bool"
  fire :: "transition \<Rightarrow> marking \<Rightarrow> 'b option \<Rightarrow> error + marking"
  chooseBinding :: "(transition \<Rightarrow> marking \<Rightarrow> 'b option) option"

text \<open>
  \<^verbatim>\<open>options.fireSemantics\<close>: each function may be left out, and the constructor then
  takes the default.
\<close>

record 'b custom_fire_semantics =
  custom_isFireable :: "(transition \<Rightarrow> marking \<Rightarrow> bool) option"
  custom_fire :: "(transition \<Rightarrow> marking \<Rightarrow> 'b option \<Rightarrow> error + marking) option"
  custom_chooseBinding :: "(transition \<Rightarrow> marking \<Rightarrow> 'b option) option"

record 'b petri_net =
  fireSemantics :: "'b fire_semantics"
  store :: "'b store"

text \<open>
  The constructor, without the rendering: it fills in the default semantics, creates the
  store and dispatches \<^verbatim>\<open>init(model)\<close> and then \<^verbatim>\<open>clearHistory()\<close>.
\<close>

definition PetriNet_constructor :: "model \<Rightarrow> 'b custom_fire_semantics \<Rightarrow> 'b petri_net" where
  "PetriNet_constructor mdl customFireSemantics =
     \<lparr>fireSemantics =
        \<lparr>isFireable = (case custom_isFireable customFireSemantics of
                         Some f \<Rightarrow> f | None \<Rightarrow> defaultIsFireable),
         fire = (case custom_fire customFireSemantics of
                   Some f \<Rightarrow> f | None \<Rightarrow> (\<lambda>t mk b. defaultFire t mk)),
         chooseBinding = custom_chooseBinding customFireSemantics\<rparr>,
      store = dispatch CLEAR_HISTORY (dispatch (init mdl) createStore)\<rparr>"

definition PetriNet_marking :: "'b petri_net \<Rightarrow> marking" where
  "PetriNet_marking pn = present (marking (state (store pn)))"

definition PetriNet_sequence :: "'b petri_net \<Rightarrow> 'b entry list" where
  "PetriNet_sequence pn = present (sequence (state (store pn)))"

text \<open>
  \<^verbatim>\<open>fire(transition)\<close>: the result says whether an exception left the method, and gives
  the object afterwards.
\<close>

definition PetriNet_fire :: "transition \<Rightarrow> 'b petri_net \<Rightarrow> error option \<times> 'b petri_net" where
  "PetriNet_fire t pn =
     (let mk = present (marking (state (store pn)));
          b = (case chooseBinding (fireSemantics pn) of
                 Some f \<Rightarrow> f t mk
               | None \<Rightarrow> None)
      in case fireTransition t mk b (fire (fireSemantics pn)) of
           Inl e \<Rightarrow> (Some e, pn)
         | Inr a \<Rightarrow> (None, pn\<lparr>store := dispatch a (store pn)\<rparr>))"

definition PetriNet_undo :: "'b petri_net \<Rightarrow> 'b petri_net" where
  "PetriNet_undo pn = pn\<lparr>store := dispatch UNDO (store pn)\<rparr>"

definition PetriNet_redo :: "'b petri_net \<Rightarrow> 'b petri_net" where
  "PetriNet_redo pn = pn\<lparr>store := dispatch REDO (store pn)\<rparr>"

text \<open>
  A run of \<^verbatim>\<open>fire\<close> calls, one per transition of the list, all of which succeed:
  \<open>None\<close> as soon as one of them throws.
\<close>

fun fire_sequence :: "transition list \<Rightarrow> 'b petri_net \<Rightarrow> 'b petri_net option" where
  "fire_sequence [] pn = Some pn"
| "fire_sequence (t # ts) pn =
     (case PetriNet_fire t pn of
        (None, pn') \<Rightarrow> fire_sequence ts pn'
      | (Some e, pn') \<Rightarrow> None)"

text \<open>
  The invariant of a history frame that the undo and redo laws rest on: nothing to redo, at
  most \<open>n\<close> frames to undo, and \<open>x\<close> the oldest value the frame holds.
\<close>

definition rooted :: "nat \<Rightarrow> 'a \<Rightarrow> 'a history \<Rightarrow> bool" where
  "rooted n x h = (future h = [] \<and> length (past h) \<le> n \<and> hd (past h @ [present h]) = x)"

section \<open>Example data\<close>

text \<open>
  The model of the example application (example/src/app.js) with its two transitions, and
  the options it is constructed with: no custom semantics. Beside them, a transition
  \<open>idle\<close> without arcs and a custom semantics whose fire function hands the marking it was
  given back for \<open>idle\<close>, and is the default for every other transition.
\<close>

definition t1 :: transition where
  "t1 = \<lparr>name = ''t1'', preconditions = [(''p0'', 1)], postconditions = [(''p1'', 2)]\<rparr>"

definition t0 :: transition where
  "t0 = \<lparr>name = ''t0'', preconditions = [(''p1'', 1)], postconditions = [(''p0'', 1)]\<rparr>"

definition example_model :: model where
  "example_model = \<lparr>places = [''p0'', ''p1''], transitions = [t1, t0], m0 = [(''p0'', 1), (''p1'', 0)]\<rparr>"

definition default_options :: "unit custom_fire_semantics" where
  "default_options = \<lparr>custom_isFireable = None, custom_fire = None, custom_chooseBinding = None\<rparr>"

definition idle :: transition where
  "idle = \<lparr>name = ''idle'', preconditions = [], postconditions = []\<rparr>"

definition idle_options :: "unit custom_fire_semantics" where
  "idle_options =
     \<lparr>custom_isFireable = None,
      custom_fire = Some (\<lambda>t mk b. if name t = ''idle'' then Inr mk else defaultFire t mk),
      custom_chooseBinding = None\<rparr>"

text \<open>
  The simulator of the example after \<^verbatim>\<open>fire(t1)\<close> and \<^verbatim>\<open>fire(t0)\<close>, and the simulator
  with the second semantics after \<^verbatim>\<open>fire(t1)\<close>, \<^verbatim>\<open>undo()\<close> and \<^verbatim>\<open>fire(idle)\<close>.
\<close>

definition example_after_t1_t0 :: "unit petri_net" where
  "example_after_t1_t0 =
     \<lparr>fireSemantics =
        \<lparr>isFireable = defaultIsFireable, fire = (\<lambda>t mk b. defaultFire t mk), chooseBinding = None\<rparr>,
      store =
        \<lparr>state =
           \<lparr>model = example_model,
            marking = \<lparr>past = [[(''p0'', 1), (''p1'', 0)], [(''p0'', 0), (''p1'', 2)]],
                       present = [(''p0'', 1), (''p1'', 1)], future = []\<rparr>,
            sequence = \<lparr>past = [[], [\<lparr>transition = ''t1'', binding = None\<rparr>]],
                        present = [\<lparr>transition = ''t1'', binding = None\<rparr>,
                                   \<lparr>transition = ''t0'', binding = None\<rparr>],
                        future = []\<rparr>\<rparr>,
         dispatched = [INIT example_model, CLEAR_HISTORY,
                       FIRE t1 None [(''p0'', 0), (''p1'', 2)],
                       FIRE t0 None [(''p0'', 1), (''p1'', 1)]]\<rparr>\<rparr>"

definition idle_branch :: "unit petri_net" where
  "idle_branch =
     snd (PetriNet_fire idle
            (PetriNet_undo (snd (PetriNet_fire t1 (PetriNet_constructor example_model idle_options)))))"

section \<open>Properties of the default semantics\<close>

lemma map_of_set_property:
  "map_of (set_property ob p v) q = (if q = p then Some v else map_of ob q)"
  by (induction ob p v rule: set_property.induct) auto

lemma keys_set_property:
  "set (keys (set_property ob p v)) = insert p (set (keys ob))"
  by (induction ob p v rule: set_property.induct) (auto simp: keys_def)

lemma set_property_fresh:
  "p \<notin> set (keys ob) \<Longrightarrow> set_property ob p v = ob @ [(p, v)]"
  by (induction ob p v rule: set_property.induct) (auto simp: keys_def)

lemma set_set_property:
  "(q, w) \<in> set (set_property ob p v) \<Longrightarrow> (q, w) \<in> set ob \<or> (q = p \<and> w = v)"
  by (induction ob p v rule: set_property.induct) (auto split: if_splits)

lemma hasOwnProperty_keys: "hasOwnProperty ob p = (p \<in> set (keys ob))"
  by (simp add: hasOwnProperty_def keys_def map_of_eq_None_iff)

lemma loop_not_unknown:
  "set ps \<subseteq> set (keys mk) \<Longrightarrow> defaultFire_loop t mk ps nm \<noteq> Inl UnknownPlaceError"
  by (induction ps arbitrary: nm) (auto simp: hasOwnProperty_keys Let_def)

lemma loop_keys:
  "defaultFire_loop t mk ps nm = Inr r \<Longrightarrow> set (keys r) = set (keys nm) \<union> set ps"
  by (induction ps arbitrary: nm) (auto simp: Let_def keys_set_property split: if_splits)

lemma loop_lookup:
  "defaultFire_loop t mk ps nm = Inr r \<Longrightarrow>
   map_of r q = (if q \<in> set ps
                 then Some (or_zero mk q - or_zero (preconditions t) q + or_zero (postconditions t) q)
                 else map_of nm q)"
  by (induction ps arbitrary: nm) (auto simp: Let_def map_of_set_property split: if_splits)

lemma loop_entries:
  "defaultFire_loop t mk ps nm = Inr r \<Longrightarrow> (q, w) \<in> set r \<Longrightarrow>
   (q, w) \<in> set nm \<or> (q \<in> set ps \<and> 0 \<le> w)"
proof (induction ps arbitrary: nm)
  case Nil
  then show ?case by simp
next
  case (Cons p ps)
  then show ?case
    by (fastforce simp: Let_def split: if_splits dest: set_set_property)
qed

lemma loop_overdraw:
  "set ps \<subseteq> set (keys mk) \<Longrightarrow>
   \<exists>p\<in>set ps. or_zero mk p - or_zero (preconditions t) p + or_zero (postconditions t) p < 0 \<Longrightarrow>
   defaultFire_loop t mk ps nm = Inl NotFireableError"
  by (induction ps arbitrary: nm) (auto simp: hasOwnProperty_keys Let_def)

lemma loop_returns:
  "set ps \<subseteq> set (keys mk) \<Longrightarrow>
   \<forall>p\<in>set ps. 0 \<le> or_zero mk p - or_zero (preconditions t) p + or_zero (postconditions t) p \<Longrightarrow>
   \<exists>r. defaultFire_loop t mk ps nm = Inr r"
  by (induction ps arbitrary: nm) (auto simp: hasOwnProperty_keys Let_def)

lemma loop_distinct:
  "distinct ps \<Longrightarrow> set ps \<inter> set (keys nm) = {} \<Longrightarrow> defaultFire_loop t mk ps nm = Inr r \<Longrightarrow>
   r = nm @ map (\<lambda>p. (p, or_zero mk p - or_zero (preconditions t) p + or_zero (postconditions t) p)) ps"
proof (induction ps arbitrary: nm)
  case Nil
  then show ?case by simp
next
  case (Cons p ps)
  from Cons.prems have fresh: "p \<notin> set (keys nm)" by auto
  let ?v = "or_zero mk p - or_zero (preconditions t) p + or_zero (postconditions t) p"
  from Cons.prems(3) have run: "defaultFire_loop t mk ps (nm @ [(p, ?v)]) = Inr r"
    by (auto simp: Let_def set_property_fresh[OF fresh] split: if_splits)
  have "set ps \<inter> set (keys (nm @ [(p, ?v)])) = {}"
    using Cons.prems(1,2) by (auto simp: keys_def)
  from Cons.IH[OF _ this run] Cons.prems(1) show ?case by simp
qed

lemma or_zero_absent: "p \<notin> set (keys ob) \<Longrightarrow> or_zero ob p = 0"
  by (simp add: or_zero_def keys_def map_of_eq_None_iff[THEN iffD2])

lemma tokens_by_keys:
  "plain_object ob \<Longrightarrow> distinct ks \<Longrightarrow> set (keys ob) \<subseteq> set ks \<Longrightarrow>
   sum_list (map (or_zero ob) ks) = tokens ob"
proof (induction ob arbitrary: ks)
  case Nil
  then show ?case by (simp add: tokens_def or_zero_def)
next
  case (Cons e ob)
  obtain k v where e: "e = (k, v)" by (cases e)
  from Cons.prems e have k: "k \<in> set ks" "k \<notin> set (keys ob)" and ob: "plain_object ob" "set (keys ob) \<subseteq> set ks"
    by (auto simp: plain_object_def keys_def)
  have "sum_list (map (or_zero (e # ob)) ks) = (\<Sum>p\<in>set ks. or_zero (e # ob) p)"
    using Cons.prems(2) by (simp add: sum_list_distinct_conv_sum_set)
  also have "\<dots> = or_zero (e # ob) k + (\<Sum>p\<in>set ks - {k}. or_zero (e # ob) p)"
    using k(1) by (simp add: sum.remove)
  also have "(\<Sum>p\<in>set ks - {k}. or_zero (e # ob) p) = (\<Sum>p\<in>set ks - {k}. or_zero ob p)"
    by (rule sum.cong) (auto simp: or_zero_def e)
  also have "or_zero (e # ob) k = v + or_zero ob k"
    using k(2) by (simp add: or_zero_absent) (simp add: or_zero_def e)
  also have "v + or_zero ob k + (\<Sum>p\<in>set ks - {k}. or_zero ob p) = v + (\<Sum>p\<in>set ks. or_zero ob p)"
    using k(1) by (simp add: sum.remove[of "set ks" k])
  also have "(\<Sum>p\<in>set ks. or_zero ob p) = sum_list (map (or_zero ob) ks)"
    using Cons.prems(2) by (simp add: sum_list_distinct_conv_sum_set)
  also have "\<dots> = tokens ob" by (rule Cons.IH[OF ob(1) Cons.prems(2) ob(2)])
  finally show ?case by (simp add: tokens_def e)
qed

lemma isFireable_keys:
  "defaultIsFireable t mk \<Longrightarrow> set (keys (preconditions t)) \<subseteq> set (keys mk)"
  by (auto simp: defaultIsFireable_def list_all_iff hasOwnProperty_keys[symmetric] hasOwnProperty_def split: option.splits)

lemma defaultFire_never_unknown: "defaultFire t mk \<noteq> Inl UnknownPlaceError"
  unfolding defaultFire_def by (rule loop_not_unknown) simp

text \<open>
  Claim C1, as amended. Whenever \<^verbatim>\<open>defaultFire\<close> returns \<open>next\<close>, every place \<open>p\<close> of the
  marking has \<open>next[p] = m[p] - pre[p] + post[p]\<close>, a weight that is not given counting as 0.
  When moreover the transition is fireable, marking, preconditions and postconditions carry
  every key once, and every place of the postconditions is a place of the marking, the
  tokens of \<open>next\<close> are those of the marking minus the precondition weights plus the
  postcondition weights.
\<close>

theorem defaultFire_conservation:
  assumes "defaultFire t mk = Inr next"
  shows "(\<forall>p v. map_of mk p = Some v \<longrightarrow>
            map_of next p = Some (v - or_zero (preconditions t) p + or_zero (postconditions t) p))
       \<and> (defaultIsFireable t mk \<and> plain_object mk \<and> plain_object (preconditions t)
            \<and> plain_object (postconditions t)
            \<and> set (keys (postconditions t)) \<subseteq> set (keys mk)
          \<longrightarrow> tokens next = tokens mk - tokens (preconditions t) + tokens (postconditions t))"
proof (intro conjI allI impI)
  fix p v
  assume pv: "map_of mk p = Some v"
  then have "p \<in> set (keys mk)"
    by (simp add: hasOwnProperty_keys[symmetric] hasOwnProperty_def)
  moreover from pv have "or_zero mk p = v" by (simp add: or_zero_def)
  ultimately show "map_of next p = Some (v - or_zero (preconditions t) p + or_zero (postconditions t) p)"
    using loop_lookup[OF assms[unfolded defaultFire_def], of p] by simp
next
  assume h: "defaultIsFireable t mk \<and> plain_object mk \<and> plain_object (preconditions t)
            \<and> plain_object (postconditions t)
            \<and> set (keys (postconditions t)) \<subseteq> set (keys mk)"
  then have d: "distinct (keys mk)" by (simp add: plain_object_def)
  from h have pre: "set (keys (preconditions t)) \<subseteq> set (keys mk)"
    by (simp add: isFireable_keys)
  have "next = map (\<lambda>p. (p, or_zero mk p - or_zero (preconditions t) p + or_zero (postconditions t) p)) (keys mk)"
    using loop_distinct[OF d _ assms[unfolded defaultFire_def]] by (simp add: keys_def)
  then have "tokens next =
      sum_list (map (\<lambda>p. or_zero mk p - or_zero (preconditions t) p + or_zero (postconditions t) p) (keys mk))"
    by (simp add: tokens_def comp_def)
  also have "\<dots> = sum_list (map (or_zero mk) (keys mk))
                 - sum_list (map (or_zero (preconditions t)) (keys mk))
                 + sum_list (map (or_zero (postconditions t)) (keys mk))"
    by (simp add: sum_list_addf sum_list_subtractf)
  also have "sum_list (map (or_zero mk) (keys mk)) = tokens mk"
    using h d by (intro tokens_by_keys) simp_all
  also have "sum_list (map (or_zero (preconditions t)) (keys mk)) = tokens (preconditions t)"
    using h d pre by (intro tokens_by_keys) simp_all
  also have "sum_list (map (or_zero (postconditions t)) (keys mk)) = tokens (postconditions t)"
    using h d by (intro tokens_by_keys) simp_all
  finally show "tokens next = tokens mk - tokens (preconditions t) + tokens (postconditions t)" .
qed

text \<open>
  Claim C2. A marking returned by \<^verbatim>\<open>defaultFire\<close> has no negative entry, and whenever
  some place of the marking would get a value below 0, \<^verbatim>\<open>defaultFire\<close> fails with
  \<open>NotFireableError\<close>.
\<close>

theorem defaultFire_nonnegative:
  "(\<forall>next. defaultFire t mk = Inr next \<longrightarrow> (\<forall>(p, v) \<in> set next. 0 \<le> v))
   \<and> ((\<exists>p v. map_of mk p = Some v
          \<and> v - or_zero (preconditions t) p + or_zero (postconditions t) p < 0)
        \<longrightarrow> defaultFire t mk = Inl NotFireableError)"
proof (intro conjI allI impI)
  fix "next"
  assume "defaultFire t mk = Inr next"
  then show "\<forall>(p, v) \<in> set next. 0 \<le> v"
    using loop_entries[of t mk "keys mk" "[]" "next"] by (auto simp: defaultFire_def)
next
  assume "\<exists>p v. map_of mk p = Some v
          \<and> v - or_zero (preconditions t) p + or_zero (postconditions t) p < 0"
  then obtain p v where pv: "map_of mk p = Some v"
    and neg: "v - or_zero (preconditions t) p + or_zero (postconditions t) p < 0" by blast
  from pv have "p \<in> set (keys mk)" "or_zero mk p = v"
    by (simp_all add: hasOwnProperty_keys[symmetric] hasOwnProperty_def or_zero_def)
  with neg show "defaultFire t mk = Inl NotFireableError"
    unfolding defaultFire_def by (intro loop_overdraw) auto
qed

text \<open>
  Claim C7. When \<^verbatim>\<open>defaultFire\<close> returns, the keys of the result are the keys of the
  marking; a place of the postconditions that the marking does not have is not in the
  result.
\<close>

theorem defaultFire_keys:
  assumes "defaultFire t mk = Inr next"
  shows "set (keys next) = set (keys mk)
       \<and> (\<forall>p\<in>set (keys (postconditions t)). p \<notin> set (keys mk) \<longrightarrow> p \<notin> set (keys next))"
  using loop_keys[OF assms[unfolded defaultFire_def]] by (simp add: keys_def)

text \<open>
  Claim C10. With non-negative weights, every precondition place in the marking, a marking
  without negative entries and \<^verbatim>\<open>defaultIsFireable\<close> true, \<^verbatim>\<open>defaultFire\<close> returns a
  marking.
\<close>

theorem defaultFire_returns_when_fireable:
  assumes pre_w: "\<forall>(p, w) \<in> set (preconditions t). 0 \<le> w"
    and post_w: "\<forall>(p, w) \<in> set (postconditions t). 0 \<le> w"
    and pre_k: "set (keys (preconditions t)) \<subseteq> set (keys mk)"
    and fireable: "defaultIsFireable t mk"
    and mk_nonneg: "\<forall>(p, v) \<in> set mk. 0 \<le> v"
  shows "\<exists>next. defaultFire t mk = Inr next"
  unfolding defaultFire_def
proof (rule loop_returns)
  show "set (keys mk) \<subseteq> set (keys mk)" by simp
  show "\<forall>p\<in>set (keys mk). 0 \<le> or_zero mk p - or_zero (preconditions t) p + or_zero (postconditions t) p"
  proof
    fix p assume "p \<in> set (keys mk)"
    have post: "0 \<le> or_zero (postconditions t) p"
      using post_w by (auto simp: or_zero_def split: option.splits dest!: map_of_SomeD)
    have "or_zero (preconditions t) p \<le> or_zero mk p"
    proof (cases "map_of (preconditions t) p")
      case None
      then show ?thesis using mk_nonneg
        by (auto simp: or_zero_def split: option.splits dest!: map_of_SomeD)
    next
      case (Some w)
      then have "p \<in> set (keys (preconditions t))"
        by (simp add: hasOwnProperty_keys[symmetric] hasOwnProperty_def)
      with fireable Some show ?thesis
        by (auto simp: defaultIsFireable_def list_all_iff or_zero_def split: option.splits)
    qed
    with post show "0 \<le> or_zero mk p - or_zero (preconditions t) p + or_zero (postconditions t) p"
      by simp
  qed
qed

text \<open>
  Claim C4 asks for \<open>UnknownPlaceError\<close> when a precondition names a place that the
  marking does not have. The loop visits the keys of the marking, not those of the
  preconditions, so the check never fires: here the precondition on \<open>q\<close> is ignored and the
  marking is returned as it was.
\<close>

theorem defaultFire_unknown_place_missed:
  "defaultFire \<lparr>name = ''t'', preconditions = [(''q'', 1)], postconditions = []\<rparr> [(''p'', 1)]
     = Inr [(''p'', 1)]"
  by (simp add: defaultFire_def keys_def hasOwnProperty_def or_zero_def)

text \<open>
  Claim C1 as stated fails: a postcondition on a place that the marking does not have is
  dropped, so the token sum of the result is not \<open>sum(m) - sum(pre) + sum(post)\<close> although
  the transition is fireable.
\<close>

theorem defaultFire_conservation_counterexample:
  "defaultIsFireable \<lparr>name = ''t'', preconditions = [(''p0'', 1)], postconditions = [(''p9'', 2)]\<rparr> [(''p0'', 1)]
   \<and> defaultFire \<lparr>name = ''t'', preconditions = [(''p0'', 1)], postconditions = [(''p9'', 2)]\<rparr> [(''p0'', 1)]
       = Inr [(''p0'', 0)]
   \<and> tokens [(''p0'', 0)] \<noteq> tokens [(''p0'', 1)] - tokens [(''p0'', 1)] + tokens [(''p9'', 2)]"
  by (simp add: defaultIsFireable_def defaultFire_def keys_def hasOwnProperty_def or_zero_def tokens_def)

section \<open>Properties of history and simulator\<close>

lemma undo_iterate:
  "length (past h) \<le> n \<Longrightarrow>
   ((\<lambda>h. undoable R h UNDO) ^^ n) h =
     \<lparr>past = [], present = hd (past h @ [present h]),
      future = tl (past h @ [present h]) @ future h\<rparr>"
proof (induction n arbitrary: h)
  case 0
  then show ?case by simp
next
  case (Suc n)
  define f where "f = (\<lambda>h :: 'a history. undoable R h UNDO)"
  have unroll: "(f ^^ Suc n) h = (f ^^ n) (f h)" by (simp add: funpow_swap1)
  show ?case
  proof (cases "past h = []")
    case True
    then have "f h = h" by (simp add: f_def)
    with Suc.IH[of h] True unroll show ?thesis by (simp add: f_def)
  next
    case False
    let ?g = "\<lparr>past = butlast (past h), present = last (past h), future = present h # future h\<rparr>"
    from False have step: "f h = ?g" by (simp add: f_def)
    from Suc.prems have "length (past ?g) \<le> n" by simp
    from Suc.IH[OF this] have "(f ^^ n) ?g =
       \<lparr>past = [], present = hd (butlast (past h) @ [last (past h)]),
        future = tl (butlast (past h) @ [last (past h)]) @ present h # future h\<rparr>"
      by (simp add: f_def)
    with False have "(f ^^ n) ?g =
       \<lparr>past = [], present = hd (past h @ [present h]),
        future = tl (past h @ [present h]) @ future h\<rparr>"
      by simp
    with unroll step show ?thesis by (simp add: f_def)
  qed
qed

lemma redo_iterate:
  "length (future h) \<le> n \<Longrightarrow>
   ((\<lambda>h. undoable R h REDO) ^^ n) h =
     \<lparr>past = past h @ butlast (present h # future h),
      present = last (present h # future h), future = []\<rparr>"
proof (induction n arbitrary: h)
  case 0
  then show ?case by simp
next
  case (Suc n)
  define f where "f = (\<lambda>h :: 'a history. undoable R h REDO)"
  have unroll: "(f ^^ Suc n) h = (f ^^ n) (f h)" by (simp add: funpow_swap1)
  show ?case
  proof (cases "future h")
    case Nil
    then have "f h = h" by (simp add: f_def)
    with Suc.IH[of h] Nil unroll show ?thesis by (simp add: f_def)
  next
    case (Cons x rest)
    let ?g = "\<lparr>past = past h @ [present h], present = x, future = rest\<rparr>"
    from Cons have step: "f h = ?g" by (simp add: f_def)
    from Suc.prems Cons have "length (future ?g) \<le> n" by simp
    from Suc.IH[OF this] have "(f ^^ n) ?g =
       \<lparr>past = (past h @ [present h]) @ butlast (x # rest), present = last (x # rest), future = []\<rparr>"
      by (simp add: f_def)
    with Cons have "(f ^^ n) ?g =
       \<lparr>past = past h @ butlast (present h # future h),
        present = last (present h # future h), future = []\<rparr>"
      by simp
    with unroll step show ?thesis by (simp add: f_def)
  qed
qed

lemma undo_redo_iterate:
  assumes "future h = []" "length (past h) \<le> n"
  shows "((\<lambda>h. undoable R h REDO) ^^ n) (((\<lambda>h. undoable R h UNDO) ^^ n) h) = h"
proof -
  let ?u = "\<lparr>past = [], present = hd (past h @ [present h]),
      future = tl (past h @ [present h])\<rparr>"
  have u: "((\<lambda>h. undoable R h UNDO) ^^ n) h = ?u"
    using undo_iterate[OF assms(2), of R] assms(1) by simp
  have "length (future ?u) \<le> n" using assms(2) by simp
  from redo_iterate[OF this, of R] have
    "((\<lambda>h. undoable R h REDO) ^^ n) ?u =
       \<lparr>past = butlast (hd (past h @ [present h]) # tl (past h @ [present h])),
        present = last (hd (past h @ [present h]) # tl (past h @ [present h])), future = []\<rparr>"
    by simp
  also have "hd (past h @ [present h]) # tl (past h @ [present h]) = past h @ [present h]"
    by simp
  finally show ?thesis using u assms(1) by simp
qed

lemma rooted_step:
  "rooted n x h \<Longrightarrow> rooted (Suc n) x (undoable R h (FIRE t b nm))"
  by (auto simp: rooted_def Let_def hd_append)

lemma PetriNet_fire_success:
  assumes "PetriNet_fire t pn = (None, pn')"
  shows "\<exists>b nm. pn' = pn\<lparr>store := dispatch (FIRE t b nm) (store pn)\<rparr>
               \<and> fire (fireSemantics pn) t (PetriNet_marking pn) b = Inr nm"
  using assms
  by (auto simp: PetriNet_fire_def fireTransition_def PetriNet_marking_def Let_def
           split: sum.splits)

lemma fire_sequence_rooted:
  "fire_sequence ts pn = Some pn' \<Longrightarrow>
   rooted k x (marking (state (store pn))) \<Longrightarrow> rooted k y (sequence (state (store pn))) \<Longrightarrow>
   rooted (k + length ts) x (marking (state (store pn')))
   \<and> rooted (k + length ts) y (sequence (state (store pn')))"
proof (induction ts arbitrary: pn k)
  case Nil
  then show ?case by simp
next
  case (Cons t ts)
  from Cons.prems(1) obtain pn1 where f1: "PetriNet_fire t pn = (None, pn1)"
    and rest: "fire_sequence ts pn1 = Some pn'"
    by (auto split: prod.splits option.splits)
  from PetriNet_fire_success[OF f1] obtain b nm where
    pn1: "pn1 = pn\<lparr>store := dispatch (FIRE t b nm) (store pn)\<rparr>" by blast
  have "marking (state (store pn1)) = undoable marking_reducer (marking (state (store pn))) (FIRE t b nm)"
    and "sequence (state (store pn1)) = undoable sequence_reducer (sequence (state (store pn))) (FIRE t b nm)"
    by (simp_all add: pn1 dispatch_def reducers_def del: undoable.simps)
  with Cons.prems(2,3) have m: "rooted (Suc k) x (marking (state (store pn1)))"
    and s: "rooted (Suc k) y (sequence (state (store pn1)))"
    by (simp_all add: rooted_step del: undoable.simps)
  from Cons.IH[OF rest m s] show ?case by simp
qed

lemma constructor_slices:
  "marking (state (store (PetriNet_constructor mdl opts))) = \<lparr>past = [], present = m0 mdl, future = []\<rparr>"
  "sequence (state (store (PetriNet_constructor mdl opts))) = \<lparr>past = [], present = [], future = []\<rparr>"
  "model (state (store (PetriNet_constructor mdl opts))) = mdl"
  by (simp_all add: PetriNet_constructor_def dispatch_def reducers_def createStore_def init_def Let_def)

lemma state_PetriNet_undo: "state (store (PetriNet_undo pn)) = reducers (state (store pn)) UNDO"
  by (simp add: PetriNet_undo_def dispatch_def)

lemma state_PetriNet_redo: "state (store (PetriNet_redo pn)) = reducers (state (store pn)) REDO"
  by (simp add: PetriNet_redo_def dispatch_def)

lemma undo_iterate_store:
  fixes pn :: "'b petri_net"
  shows "state (store ((PetriNet_undo ^^ n) pn)) =
     \<lparr>model = model (state (store pn)),
      marking = ((\<lambda>h. undoable marking_reducer h (UNDO :: 'b action)) ^^ n) (marking (state (store pn))),
      sequence = ((\<lambda>h. undoable sequence_reducer h UNDO) ^^ n) (sequence (state (store pn)))\<rparr>"
  by (induction n) (simp_all add: state_PetriNet_undo reducers_def del: undoable.simps)

lemma redo_iterate_store:
  fixes pn :: "'b petri_net"
  shows "state (store ((PetriNet_redo ^^ n) pn)) =
     \<lparr>model = model (state (store pn)),
      marking = ((\<lambda>h. undoable marking_reducer h (REDO :: 'b action)) ^^ n) (marking (state (store pn))),
      sequence = ((\<lambda>h. undoable sequence_reducer h REDO) ^^ n) (sequence (state (store pn)))\<rparr>"
  by (induction n) (simp_all add: state_PetriNet_redo reducers_def del: undoable.simps)

text \<open>
  Claim C3. After the constructor (Init) and \<open>n\<close> successful calls of \<^verbatim>\<open>fire\<close>, \<open>n\<close>
  calls of \<^verbatim>\<open>undo\<close> bring marking and sequence back to their values after the
  constructor, and \<open>n\<close> calls of \<^verbatim>\<open>redo\<close> then restore marking and sequence, and the
  whole state with its history frames, to what they were after the last fire.
\<close>

theorem undo_redo_inverse:
  fixes pn :: "'b petri_net"
  assumes run: "fire_sequence ts (PetriNet_constructor mdl opts) = Some pn"
  shows "PetriNet_marking ((PetriNet_undo ^^ length ts) pn) = PetriNet_marking (PetriNet_constructor mdl opts)
       \<and> PetriNet_sequence ((PetriNet_undo ^^ length ts) pn) = PetriNet_sequence (PetriNet_constructor mdl opts)
       \<and> PetriNet_marking ((PetriNet_redo ^^ length ts) ((PetriNet_undo ^^ length ts) pn)) = PetriNet_marking pn
       \<and> PetriNet_sequence ((PetriNet_redo ^^ length ts) ((PetriNet_undo ^^ length ts) pn)) = PetriNet_sequence pn
       \<and> state (store ((PetriNet_redo ^^ length ts) ((PetriNet_undo ^^ length ts) pn))) = state (store pn)"
proof -
  let ?n = "length ts"
  let ?new = "PetriNet_constructor mdl opts :: 'b petri_net"
  have "rooted 0 (m0 mdl) (marking (state (store ?new)))"
    and "rooted 0 [] (sequence (state (store ?new)))"
    by (simp_all add: rooted_def constructor_slices)
  from fire_sequence_rooted[OF run this]
  have m: "rooted ?n (m0 mdl) (marking (state (store pn)))"
    and s: "rooted ?n [] (sequence (state (store pn)))" by simp_all
  have um: "present (((\<lambda>h. undoable marking_reducer h (UNDO :: 'b action)) ^^ ?n) (marking (state (store pn)))) = m0 mdl"
    using m undo_iterate[of "marking (state (store pn))" ?n marking_reducer]
    by (simp add: rooted_def)
  have us: "present (((\<lambda>h. undoable sequence_reducer h UNDO) ^^ ?n) (sequence (state (store pn)))) = []"
    using s undo_iterate[of "sequence (state (store pn))" ?n sequence_reducer]
    by (simp add: rooted_def)
  have restored: "state (store ((PetriNet_redo ^^ ?n) ((PetriNet_undo ^^ ?n) pn))) = state (store pn)"
  proof -
    have "((\<lambda>h. undoable marking_reducer h (REDO :: 'b action)) ^^ ?n)
            (((\<lambda>h. undoable marking_reducer h (UNDO :: 'b action)) ^^ ?n) (marking (state (store pn))))
          = marking (state (store pn))"
      using m by (intro undo_redo_iterate) (simp_all add: rooted_def)
    moreover have "((\<lambda>h. undoable sequence_reducer h REDO) ^^ ?n)
            (((\<lambda>h. undoable sequence_reducer h UNDO) ^^ ?n) (sequence (state (store pn))))
          = sequence (state (store pn))"
      using s by (intro undo_redo_iterate) (simp_all add: rooted_def)
    ultimately show ?thesis
      by (simp add: redo_iterate_store undo_iterate_store del: undoable.simps)
  qed
  show ?thesis
    using um us restored
    by (simp add: PetriNet_marking_def PetriNet_sequence_def undo_iterate_store constructor_slices
             del: undoable.simps)
qed

text \<open>
  Claim C5. If the fire function raises an error for the current marking and the chosen
  binding, \<^verbatim>\<open>fire(t)\<close> passes the error on to its caller and leaves the simulator as it
  was: no action reaches the store, and the marking and sequence slices keep their history
  frames.
\<close>

theorem PetriNet_fire_all_or_nothing:
  assumes "fire (fireSemantics pn) t (PetriNet_marking pn)
             (case chooseBinding (fireSemantics pn) of
                Some f \<Rightarrow> f t (PetriNet_marking pn) | None \<Rightarrow> None) = Inl e"
  shows "PetriNet_fire t pn = (Some e, pn)
       \<and> dispatched (store (snd (PetriNet_fire t pn))) = dispatched (store pn)
       \<and> marking (state (store (snd (PetriNet_fire t pn)))) = marking (state (store pn))
       \<and> sequence (state (store (snd (PetriNet_fire t pn)))) = sequence (state (store pn))"
proof -
  have "PetriNet_fire t pn = (Some e, pn)"
    using assms
    by (cases "chooseBinding (fireSemantics pn)")
       (simp_all add: PetriNet_fire_def fireTransition_def PetriNet_marking_def Let_def)
  then show ?thesis by simp
qed

text \<open>
  Claim C6. The sequence reducer returns the empty sequence on Init, appends one entry with
  the name of the fired transition and the binding of the action on Fire, and returns its
  state on every other action. (The source calls the first field of an entry
  \<^verbatim>\<open>transition\<close>.)
\<close>

theorem sequence_reducer_cases:
  "sequence_reducer st (INIT mdl) = []
   \<and> sequence_reducer st (FIRE t b nextMarking) = st @ [\<lparr>transition = name t, binding = b\<rparr>]
   \<and> sequence_reducer st UNDO = st
   \<and> sequence_reducer st REDO = st
   \<and> sequence_reducer st CLEAR_HISTORY = st
   \<and> sequence_reducer st (OTHER ty) = st"
  by simp

text \<open>
  Claim C9. An action other than Undo, Redo and ClearHistory whose wrapped reducer returns
  the present value leaves the history frame as it is, past and future included, so an
  undo right after it does what an undo before it would have done.
\<close>

theorem undoable_no_entry_for_noop:
  assumes "a \<noteq> UNDO" "a \<noteq> REDO" "a \<noteq> CLEAR_HISTORY" and "R (present h) a = present h"
  shows "undoable R h a = h
       \<and> past (undoable R h a) = past h \<and> future (undoable R h a) = future h
       \<and> undoable R (undoable R h a) UNDO = undoable R h UNDO"
proof -
  from assms have "undoable R h a = h" by (cases a) simp_all
  then show ?thesis by simp
qed

text \<open>
  Claim C8, as amended. From any state of the simulator, in particular after some fires and
  \<open>k \<ge> 1\<close> undos, a successful fire that changes the marking empties the future of both
  slices, and a redo right after it leaves the state, marking and sequence included, as it
  is.
\<close>

theorem fire_clears_redo:
  assumes "PetriNet_fire t pn = (None, pn')"
    and "PetriNet_marking pn' \<noteq> PetriNet_marking pn"
  shows "future (marking (state (store pn'))) = []
       \<and> future (sequence (state (store pn'))) = []
       \<and> state (store (PetriNet_redo pn')) = state (store pn')
       \<and> PetriNet_marking (PetriNet_redo pn') = PetriNet_marking pn'
       \<and> PetriNet_sequence (PetriNet_redo pn') = PetriNet_sequence pn'"
proof -
  from PetriNet_fire_success[OF assms(1)] obtain b nm where
    pn': "pn' = pn\<lparr>store := dispatch (FIRE t b nm) (store pn)\<rparr>" by blast
  from assms(2) have changed: "nm \<noteq> present (marking (state (store pn)))"
    by (auto simp: pn' PetriNet_marking_def dispatch_def reducers_def Let_def split: if_splits)
  have m: "future (marking (state (store pn'))) = []"
    using changed by (simp add: pn' dispatch_def reducers_def)
  have s: "future (sequence (state (store pn'))) = []"
    by (simp add: pn' dispatch_def reducers_def)
  have "reducers (state (store pn')) REDO = state (store pn')"
    using m s by (simp add: reducers_def)
  then have "state (store (PetriNet_redo pn')) = state (store pn')"
    by (simp add: state_PetriNet_redo)
  with m s show ?thesis by (simp add: PetriNet_marking_def PetriNet_sequence_def)
qed

section \<open>The properties on the example application\<close>

lemmas object_defs = keys_def hasOwnProperty_def or_zero_def plain_object_def tokens_def
lemmas example_defs = t1_def t0_def idle_def example_model_def default_options_def idle_options_def
lemmas store_defs = PetriNet_constructor_def PetriNet_fire_def PetriNet_undo_def PetriNet_redo_def
  PetriNet_marking_def PetriNet_sequence_def fireTransition_def dispatch_def reducers_def
  createStore_def init_def initialModel_def

text \<open>The scenario of the specification: \<open>t1\<close> and then \<open>t0\<close> fire from the initial marking.\<close>

lemma example_run:
  "fire_sequence [t1, t0] (PetriNet_constructor example_model default_options) = Some example_after_t1_t0"
  by (simp add: example_after_t1_t0_def store_defs example_defs defaultFire_def
        defaultIsFireable_def object_defs Let_def)

theorem defaultFire_conservation_witness:
  "defaultFire t1 (m0 example_model) = Inr [(''p0'', 0), (''p1'', 2)]
   \<and> defaultIsFireable t1 (m0 example_model)
   \<and> plain_object (m0 example_model)
   \<and> plain_object (preconditions t1) \<and> plain_object (postconditions t1)
   \<and> set (keys (postconditions t1)) \<subseteq> set (keys (m0 example_model))
   \<and> map_of (m0 example_model) ''p1'' = Some 0
   \<and> map_of [(''p0'', 0), (''p1'', 2)] ''p1''
        = Some (0 - or_zero (preconditions t1) ''p1'' + or_zero (postconditions t1) ''p1'')
   \<and> tokens [(''p0'', 0), (''p1'', 2)]
        = tokens (m0 example_model) - tokens (preconditions t1) + tokens (postconditions t1)"
proof -
  have run: "defaultFire t1 (m0 example_model) = Inr [(''p0'', 0), (''p1'', 2)]"
    by (simp add: defaultFire_def example_defs object_defs)
  have hyps: "defaultIsFireable t1 (m0 example_model)
     \<and> plain_object (m0 example_model)
     \<and> plain_object (preconditions t1) \<and> plain_object (postconditions t1)
     \<and> set (keys (postconditions t1)) \<subseteq> set (keys (m0 example_model))"
    by (simp add: defaultIsFireable_def example_defs object_defs)
  have p1: "map_of (m0 example_model) ''p1'' = Some 0"
    by (simp add: example_defs)
  note law = defaultFire_conservation[OF run]
  from law p1 have "map_of [(''p0'', 0), (''p1'', 2)] ''p1''
        = Some (0 - or_zero (preconditions t1) ''p1'' + or_zero (postconditions t1) ''p1'')"
    by blast
  moreover from law hyps have "tokens [(''p0'', 0), (''p1'', 2)]
        = tokens (m0 example_model) - tokens (preconditions t1) + tokens (postconditions t1)"
    by blast
  ultimately show ?thesis using run hyps p1 by simp
qed

theorem defaultFire_nonnegative_witness:
  "defaultFire t1 [(''p0'', 1), (''p1'', 0)] = Inr [(''p0'', 0), (''p1'', 2)]
   \<and> list_all (\<lambda>e. 0 \<le> snd e) [(''p0'', 0), (''p1'', 2 :: int)]
   \<and> map_of [(''p0'', 0), (''p1'', 2)] ''p0'' = Some (0 :: int)
   \<and> 0 - or_zero (preconditions t1) ''p0'' + or_zero (postconditions t1) ''p0'' < 0
   \<and> defaultFire t1 [(''p0'', 0), (''p1'', 2)] = Inl NotFireableError"
proof -
  have run: "defaultFire t1 [(''p0'', 1), (''p1'', 0)] = Inr [(''p0'', 0), (''p1'', 2)]"
    by (simp add: defaultFire_def example_defs object_defs)
  from defaultFire_nonnegative[of t1 "[(''p0'', 1), (''p1'', 0)]"] run
  have "\<forall>(p, v) \<in> set [(''p0'', 0), (''p1'', 2 :: int)]. 0 \<le> v" by blast
  then have ok: "list_all (\<lambda>e. 0 \<le> snd e) [(''p0'', 0), (''p1'', 2 :: int)]" by simp
  have over: "map_of [(''p0'', 0), (''p1'', 2)] ''p0'' = Some (0 :: int)
     \<and> 0 - or_zero (preconditions t1) ''p0'' + or_zero (postconditions t1) ''p0'' < 0"
    by (simp add: example_defs object_defs)
  with defaultFire_nonnegative[of t1 "[(''p0'', 0), (''p1'', 2)]"]
  have "defaultFire t1 [(''p0'', 0), (''p1'', 2)] = Inl NotFireableError" by blast
  with run ok over show ?thesis by simp
qed

theorem defaultFire_keys_witness:
  "defaultFire \<lparr>name = ''t'', preconditions = [(''p0'', 1)], postconditions = [(''p9'', 2)]\<rparr>
       [(''p0'', 1)] = Inr [(''p0'', 0)]
   \<and> set (keys [(''p0'', 0)]) = set (keys [(''p0'', 1)])
   \<and> ''p9'' \<in> set (keys [(''p9'', 2)])
   \<and> ''p9'' \<notin> set (keys [(''p0'', 1)])
   \<and> ''p9'' \<notin> set (keys [(''p0'', 0)])"
proof -
  let ?t = "\<lparr>name = ''t'', preconditions = [(''p0'', 1)], postconditions = [(''p9'', 2)]\<rparr>"
  have run: "defaultFire ?t [(''p0'', 1)] = Inr [(''p0'', 0)]"
    by (simp add: defaultFire_def object_defs)
  from defaultFire_keys[OF run] run show ?thesis by (simp add: keys_def)
qed

theorem defaultFire_returns_when_fireable_witness:
  "list_all (\<lambda>e. 0 \<le> snd e) (preconditions t1)
   \<and> list_all (\<lambda>e. 0 \<le> snd e) (postconditions t1)
   \<and> set (keys (preconditions t1)) \<subseteq> set (keys (m0 example_model))
   \<and> defaultIsFireable t1 (m0 example_model)
   \<and> list_all (\<lambda>e. 0 \<le> snd e) (m0 example_model)
   \<and> (\<exists>next. defaultFire t1 (m0 example_model) = Inr next)"
proof -
  have a: "\<forall>(p, w) \<in> set (preconditions t1). 0 \<le> w"
    and b: "\<forall>(p, w) \<in> set (postconditions t1). 0 \<le> w"
    and c: "set (keys (preconditions t1)) \<subseteq> set (keys (m0 example_model))"
    and d: "defaultIsFireable t1 (m0 example_model)"
    and e: "\<forall>(p, v) \<in> set (m0 example_model). 0 \<le> v"
    by (simp_all add: defaultIsFireable_def example_defs object_defs)
  from defaultFire_returns_when_fireable[OF a b c d e] c d
  show ?thesis by (simp add: example_defs)
qed

theorem undo_redo_inverse_witness:
  "fire_sequence [t1, t0] (PetriNet_constructor example_model default_options) = Some example_after_t1_t0
   \<and> PetriNet_marking ((PetriNet_undo ^^ length [t1, t0]) example_after_t1_t0) = [(''p0'', 1), (''p1'', 0)]
   \<and> PetriNet_sequence ((PetriNet_undo ^^ length [t1, t0]) example_after_t1_t0) = []
   \<and> PetriNet_marking ((PetriNet_redo ^^ length [t1, t0]) ((PetriNet_undo ^^ length [t1, t0]) example_after_t1_t0))
       = [(''p0'', 1), (''p1'', 1)]
   \<and> PetriNet_sequence ((PetriNet_redo ^^ length [t1, t0]) ((PetriNet_undo ^^ length [t1, t0]) example_after_t1_t0))
       = [\<lparr>transition = ''t1'', binding = None\<rparr>, \<lparr>transition = ''t0'', binding = None\<rparr>]"
proof -
  have start: "PetriNet_marking (PetriNet_constructor example_model default_options) = [(''p0'', 1), (''p1'', 0)]"
    "PetriNet_sequence (PetriNet_constructor example_model default_options) = []"
    by (simp_all add: PetriNet_marking_def PetriNet_sequence_def constructor_slices example_model_def)
  have finish: "PetriNet_marking example_after_t1_t0 = [(''p0'', 1), (''p1'', 1)]"
    "PetriNet_sequence example_after_t1_t0
       = [\<lparr>transition = ''t1'', binding = None\<rparr>, \<lparr>transition = ''t0'', binding = None\<rparr>]"
    by (simp_all add: PetriNet_marking_def PetriNet_sequence_def example_after_t1_t0_def)
  from undo_redo_inverse[OF example_run] start finish example_run
  show ?thesis by (simp del: funpow.simps)
qed

theorem PetriNet_fire_all_or_nothing_witness:
  "fire (fireSemantics (PetriNet_constructor example_model default_options)) t0
      (PetriNet_marking (PetriNet_constructor example_model default_options)) None
     = Inl NotFireableError
   \<and> PetriNet_fire t0 (PetriNet_constructor example_model default_options)
       = (Some NotFireableError, PetriNet_constructor example_model default_options)"
proof -
  let ?pn = "PetriNet_constructor example_model default_options"
  have fails: "fire (fireSemantics ?pn) t0 (PetriNet_marking ?pn) None = Inl NotFireableError"
    by (simp add: store_defs example_defs defaultFire_def object_defs)
  have "chooseBinding (fireSemantics ?pn) = None"
    by (simp add: PetriNet_constructor_def default_options_def)
  with fails have "fire (fireSemantics ?pn) t0 (PetriNet_marking ?pn)
             (case chooseBinding (fireSemantics ?pn) of
                Some f \<Rightarrow> f t0 (PetriNet_marking ?pn) | None \<Rightarrow> None) = Inl NotFireableError"
    by simp
  from PetriNet_fire_all_or_nothing[OF this] fails show ?thesis by simp
qed

theorem undoable_no_entry_for_noop_witness:
  "marking_reducer [(''p0'', 0)] (FIRE idle (None :: unit option) [(''p0'', 0)]) = [(''p0'', 0)]
   \<and> undoable marking_reducer \<lparr>past = [[(''p0'', 1)]], present = [(''p0'', 0)], future = [[(''p0'', 5)]]\<rparr>
        (FIRE idle (None :: unit option) [(''p0'', 0)])
       = \<lparr>past = [[(''p0'', 1)]], present = [(''p0'', 0)], future = [[(''p0'', 5)]]\<rparr>
   \<and> undoable marking_reducer
        (undoable marking_reducer \<lparr>past = [[(''p0'', 1)]], present = [(''p0'', 0)], future = [[(''p0'', 5)]]\<rparr>
           (FIRE idle (None :: unit option) [(''p0'', 0)])) (UNDO :: unit action)
       = \<lparr>past = [], present = [(''p0'', 1)], future = [[(''p0'', 0)], [(''p0'', 5)]]\<rparr>"
proof -
  let ?h = "\<lparr>past = [[(''p0'', 1 :: int)]], present = [(''p0'', 0)], future = [[(''p0'', 5)]]\<rparr>"
  let ?a = "FIRE idle (None :: unit option) [(''p0'', 0)]"
  have same: "marking_reducer (present ?h) ?a = present ?h" by simp
  from undoable_no_entry_for_noop[of ?a marking_reducer ?h, OF _ _ _ same]
  show ?thesis by simp
qed

theorem fire_clears_redo_witness:
  "PetriNet_fire t0 (PetriNet_undo example_after_t1_t0)
     = (None, snd (PetriNet_fire t0 (PetriNet_undo example_after_t1_t0)))
   \<and> PetriNet_marking (PetriNet_undo example_after_t1_t0) = [(''p0'', 0), (''p1'', 2)]
   \<and> future (marking (state (store (PetriNet_undo example_after_t1_t0)))) = [[(''p0'', 1), (''p1'', 1)]]
   \<and> PetriNet_marking (snd (PetriNet_fire t0 (PetriNet_undo example_after_t1_t0))) = [(''p0'', 1), (''p1'', 1)]
   \<and> future (marking (state (store (snd (PetriNet_fire t0 (PetriNet_undo example_after_t1_t0)))))) = []
   \<and> PetriNet_marking (PetriNet_redo (snd (PetriNet_fire t0 (PetriNet_undo example_after_t1_t0))))
       = [(''p0'', 1), (''p1'', 1)]"
proof -
  let ?pn = "PetriNet_undo example_after_t1_t0"
  let ?pn' = "snd (PetriNet_fire t0 ?pn)"
  have before: "PetriNet_marking ?pn = [(''p0'', 0), (''p1'', 2)]"
    "future (marking (state (store ?pn))) = [[(''p0'', 1), (''p1'', 1)]]"
    by (simp_all add: example_after_t1_t0_def store_defs)
  have ok: "fst (PetriNet_fire t0 ?pn) = None"
    by (simp add: example_after_t1_t0_def store_defs example_defs defaultFire_def object_defs Let_def)
  then have run: "PetriNet_fire t0 ?pn = (None, ?pn')" by (simp add: prod_eq_iff)
  have after: "PetriNet_marking ?pn' = [(''p0'', 1), (''p1'', 1)]"
    by (simp add: example_after_t1_t0_def store_defs example_defs defaultFire_def object_defs Let_def)
  with before have changed: "PetriNet_marking ?pn' \<noteq> PetriNet_marking ?pn" by simp
  from fire_clears_redo[OF run changed] run before after show ?thesis by simp
qed

text \<open>
  Claim C8 as stated fails: a fire that succeeds and hands back the marking it was given
  adds an entry to the sequence but leaves the marking slice, its future included, as it
  was. The redo that follows is then not a no-op: it brings back the marking of the undone
  branch, beside a sequence that does not lead to it.
\<close>

theorem redo_after_idle_fire_counterexample:
  "fst (PetriNet_fire t1 (PetriNet_constructor example_model idle_options)) = None
   \<and> fst (PetriNet_fire idle
            (PetriNet_undo (snd (PetriNet_fire t1 (PetriNet_constructor example_model idle_options)))))
       = None
   \<and> PetriNet_marking idle_branch = [(''p0'', 1), (''p1'', 0)]
   \<and> PetriNet_sequence idle_branch = [\<lparr>transition = ''idle'', binding = None\<rparr>]
   \<and> PetriNet_marking (PetriNet_redo idle_branch) = [(''p0'', 0), (''p1'', 2)]
   \<and> PetriNet_sequence (PetriNet_redo idle_branch) = [\<lparr>transition = ''idle'', binding = None\<rparr>]"
  by (simp add: idle_branch_def store_defs example_defs defaultFire_def object_defs Let_def)

end
